theory Spec2Isabelle
  imports Main "HOL-Library.Sublist" "HOL-Library.AList" "HOL-Library.Char_ord"
    "HOL-Library.List_Lexorder" "HOL-Library.Product_Lexorder"
begin

section \<open>Cells and strings\<close>

text \<open>
  A Python \<open>str\<close> is modelled as a \<open>string\<close>: one \<open>char\<close> per code point, for the code
  points below 256. A spreadsheet cell, as \<open>pandas.read_excel\<close> delivers it, is a missing
  value (NaN), a \<open>str\<close>, or another scalar (a number, a timestamp); the last is carried
  with the text that Python's \<open>str()\<close> gives for it.
\<close>

datatype cell = NA | Str string | Scalar string

text \<open>\<open>str.isspace\<close> on the code points below 256: TAB, LF, VT, FF, CR, FS, GS, RS, US,
  space, NEL (0x85) and the no-break space (0xA0).\<close>

definition is_space :: "char \<Rightarrow> bool" where
  "is_space c = (of_char c \<in> {9, 10, 11, 12, 13, 28, 29, 30, 31, 32, 133, 160 :: nat})"

text \<open>\<open>s.strip()\<close>\<close>

definition strip :: "string \<Rightarrow> string" where
  "strip s = rev (dropWhile is_space (rev (dropWhile is_space s)))"

text \<open>The character class \<open>[0-9]\<close>.\<close>

definition is_digit :: "char \<Rightarrow> bool" where
  "is_digit c = (c \<in> set ''0123456789'')"

section \<open>SOC normalisation\<close>

text \<open>
  Lines 46--47 of \<open>norm_soc\<close>: a \<open>str\<close> is taken as it is, a missing value becomes the empty
  string, any other scalar its \<open>str()\<close>.
\<close>

fun as_str :: "cell \<Rightarrow> string" where
  "as_str (Str s) = s"
| "as_str NA = []"
| "as_str (Scalar r) = r"

text \<open>
  \<^verbatim>\<open>
  s = s.strip()
  if not s: return ""
  digits = re.sub(r"[^0-9]", "", s)
  if len(digits) >= 7:
      left = f"{digits[0:2]}-{digits[2:7]}"
      rest = digits[7:]
      return f"{left}{('-' + rest) if rest else ''}"
  elif len(digits) in (5, 6):
      return f"{digits[:2]}-{digits[2:]}"
  else:
      return s
  \<close>
\<close>

definition norm_soc :: "cell \<Rightarrow> string" where
  "norm_soc c =
     (let s = strip (as_str c) in
      if s = [] then []
      else
        let digits = filter is_digit s in
        if 7 \<le> length digits then
          (let left = take 2 digits @ ''-'' @ take 5 (drop 2 digits);
               rest = drop 7 digits
           in left @ (if rest \<noteq> [] then ''-'' @ rest else []))
        else if length digits \<in> {5, 6} then take 2 digits @ ''-'' @ drop 2 digits
        else s)"

text \<open>
  The exceptions of the program, by their Python class; the \<open>KeyError\<close>s of the loader
  by their place.
\<close>

datatype error =
    KeyError_required_column     \<comment> \<open>\<open>find_col\<close>: required column not found\<close>
  | KeyError_no_soc_column       \<comment> \<open>the loader found no SOC code column\<close>
  | KeyError_neither_wide_nor_long
  | KeyError_no_work_values      \<comment> \<open>no Element Name maps to one of the six values\<close>
  | ValueError
  | AttributeError
  | MergeError                   \<comment> \<open>\<open>pandas.errors.MergeError\<close> of \<open>validate="m:1"\<close>\<close>

text \<open>
  What \<open>norm_soc\<close> is handed by \<open>.apply(norm_soc)\<close>: a cell, when the label selects one
  column (\<open>Series.apply\<close> calls it on each cell), or a whole column, a pandas \<open>Series\<close>,
  when the label is borne by several columns (\<open>DataFrame.apply\<close> calls it on each
  column). A \<open>Series\<close> is not a \<open>str\<close>, \<open>pd.notna\<close> of it is a \<open>Series\<close> again, and the
  truth value that line 47 asks of it raises \<open>ValueError\<close>.
\<close>

datatype pyobj = Cell cell | Series "cell list"

fun norm_soc_call :: "pyobj \<Rightarrow> error + string" where
  "norm_soc_call (Cell c) = Inr (norm_soc c)"
| "norm_soc_call (Series cs) = Inl ValueError"


section \<open>Column resolver\<close>

text \<open>
  \<open>str.lower\<close> on the code points below 256: the letters A--Z and the upper-case
  letters of Latin-1 (0xC0--0xDE without the multiplication sign 0xD7) move up by 32.
\<close>

definition lower_char :: "char \<Rightarrow> char" where
  "lower_char c =
     (let n = (of_char c :: nat) in
      if (65 \<le> n \<and> n \<le> 90) \<or> (192 \<le> n \<and> n \<le> 222 \<and> n \<noteq> 215)
      then char_of (n + 32) else c)"

definition lower :: "string \<Rightarrow> string" where
  "lower s = map lower_char s"

text \<open>The character class \<open>[a-z0-9]\<close>.\<close>

definition is_lower_alnum :: "char \<Rightarrow> bool" where
  "is_lower_alnum c = (c \<in> set ''abcdefghijklmnopqrstuvwxyz0123456789'')"

text \<open>\<open>_canon(s) = re.sub(r"[^a-z0-9]", "", str(s).lower())\<close>, on a \<open>str\<close>.\<close>

definition canon :: "string \<Rightarrow> string" where
  "canon s = filter is_lower_alnum (lower s)"

text \<open>Python's \<open>str(x)\<close> of a cell; a missing value (NaN) prints as \<open>nan\<close>.\<close>

fun py_str :: "cell \<Rightarrow> string" where
  "py_str (Str s) = s"
| "py_str NA = ''nan''"
| "py_str (Scalar r) = r"

text \<open>
  \<open>_col_like(df, options)\<close>: the first column, in column order, whose canonical form is
  the canonical form of one of the options; \<open>None\<close> without one.
\<close>

definition col_like :: "string list \<Rightarrow> string list \<Rightarrow> string option" where
  "col_like columns options = find (\<lambda>c. canon c \<in> set (map canon options)) columns"

text \<open>\<open>find_col(df, options)\<close>: as \<open>_col_like\<close>, but raising \<open>KeyError\<close>.\<close>

definition find_col :: "string list \<Rightarrow> string list \<Rightarrow> error + string" where
  "find_col columns options =
     (case find (\<lambda>c. canon c \<in> set (map canon options)) columns of
        Some c \<Rightarrow> Inr c
      | None \<Rightarrow> Inl KeyError_required_column)"

subsection \<open>The tolerant resolver of the Work-Values columns\<close>

text \<open>
  A Python \<open>dict\<close> filled by assignments in sequence, as an association list in insertion
  order: assigning to a key that is present replaces its value where the key stands,
  a new key goes to the end (\<open>AList.update\<close>).
\<close>

definition dict_of :: "('k \<times> 'v) list \<Rightarrow> ('k \<times> 'v) list" where
  "dict_of kvs = foldl (\<lambda>d (k, v). AList.update k v d) [] kvs"

text \<open>\<open>canon_headers = {_canon(c): c for c in onet_df.columns}\<close>\<close>

definition canon_headers :: "string list \<Rightarrow> (string \<times> string) list" where
  "canon_headers columns = dict_of (map (\<lambda>c. (canon c, c)) columns)"

text \<open>
  \<^verbatim>\<open>
  for a in aliases:
      if a in canon_headers:
          return canon_headers[a]
  \<close>
\<close>

primrec exact_match :: "(string \<times> string) list \<Rightarrow> string list \<Rightarrow> string option" where
  "exact_match ch [] = None"
| "exact_match ch (a # as) =
     (case map_of ch a of Some orig \<Rightarrow> Some orig | None \<Rightarrow> exact_match ch as)"

text \<open>
  \<^verbatim>\<open>
  for k, orig in canon_headers.items():
      if a in k:
          return orig
  \<close>
  for one alias \<open>a\<close>; \<open>a in k\<close> is the substring test.
\<close>

primrec contains_in_headers :: "string \<Rightarrow> (string \<times> string) list \<Rightarrow> string option" where
  "contains_in_headers a [] = None"
| "contains_in_headers a (p # ps) =
     (if sublist a (fst p) then Some (snd p) else contains_in_headers a ps)"

primrec contains_match :: "(string \<times> string) list \<Rightarrow> string list \<Rightarrow> string option" where
  "contains_match ch [] = None"
| "contains_match ch (a # as) =
     (case contains_in_headers a ch of
        Some orig \<Rightarrow> Some orig
      | None \<Rightarrow> contains_match ch as)"

text \<open>\<open>_find_value_col(aliases)\<close>, with the dictionary \<open>canon_headers\<close> it closes over.\<close>

definition find_value_col :: "(string \<times> string) list \<Rightarrow> string list \<Rightarrow> string option" where
  "find_value_col ch aliases =
     (case exact_match ch aliases of
        Some orig \<Rightarrow> Some orig
      | None \<Rightarrow> contains_match ch aliases)"

definition VALUE_COLS_CANON :: "string list" where
  "VALUE_COLS_CANON =
     [''Achievement'', ''Independence'', ''Recognition'', ''Relationships'', ''Support'',
      ''Working Conditions'']"

definition VALUE_ALIASES :: "(string \<times> string list) list" where
  "VALUE_ALIASES =
     [(''Achievement'', [''achievement'']),
      (''Independence'', [''independence'']),
      (''Recognition'', [''recognition'']),
      (''Relationships'', [''relationship'', ''relationships'']),
      (''Support'', [''support'']),
      (''Working Conditions'',
         [''workingconditions'', ''workconditions'', ''workingcondition'', ''workcondition''])]"

text \<open>\<open>aliases = [_canon(x) for x in VALUE_ALIASES.get(v, [_canon(v)])]\<close>\<close>

definition value_aliases :: "string \<Rightarrow> string list" where
  "value_aliases v =
     map canon (case map_of VALUE_ALIASES v of Some xs \<Rightarrow> xs | None \<Rightarrow> [canon v])"

text \<open>
  The loop over \<open>VALUE_COLS_CANON\<close> of the wide attempt: the six hits, or \<open>None\<close> where the
  code raises \<open>KeyError("wide-missing:...")\<close>, which its \<open>except KeyError\<close> turns into the
  long-shape fallback.
\<close>

definition wide_value_cols :: "string list \<Rightarrow> string list option" where
  "wide_value_cols columns =
     those (map (\<lambda>v. find_value_col (canon_headers columns) (value_aliases v))
              VALUE_COLS_CANON)"

text \<open>
  The resolution order in the words of the specification, for comparison with
  \<open>find_value_col\<close>: exact canonical match first across all variants, then containment
  match, the first hit in header order winning.
\<close>

definition resolve_by_header_order :: "string list \<Rightarrow> string list \<Rightarrow> string option" where
  "resolve_by_header_order columns aliases =
     (case find (\<lambda>c. canon c \<in> set aliases) columns of
        Some c \<Rightarrow> Some c
      | None \<Rightarrow> find (\<lambda>c. \<exists>a \<in> set aliases. sublist a (canon c)) columns)"

section \<open>Column labels\<close>

text \<open>
  The labels of a data frame are a list: pandas allows a label to stand on several
  columns, and \<open>df[label]\<close> is then a frame of all of them, not one column.
\<close>

text \<open>\<open>df[name] = ...\<close>: an existing column keeps its place, a new one goes to the end.\<close>

definition set_column :: "string \<Rightarrow> string list \<Rightarrow> string list" where
  "set_column name cols = (if name \<in> set cols then cols else cols @ [name])"

text \<open>\<open>df.rename(columns={old: new})\<close>\<close>

definition rename :: "string \<Rightarrow> string \<Rightarrow> string list \<Rightarrow> string list" where
  "rename old new cols = map (\<lambda>c. if c = old then new else c) cols"

text \<open>\<open>df.rename(columns=ren)\<close> for a dictionary \<open>ren\<close>: every column whose label is a key
  takes the value as its label.\<close>

definition rename_columns :: "(string \<times> string) list \<Rightarrow> string list \<Rightarrow> string list" where
  "rename_columns ren cols = map (\<lambda>c. case map_of ren c of Some new \<Rightarrow> new | None \<Rightarrow> c) cols"

text \<open>\<open>df[labels]\<close>: for each label in turn, every column that bears it.\<close>

definition select_columns :: "string list \<Rightarrow> string list \<Rightarrow> string list" where
  "select_columns labels cols = concat (map (\<lambda>l. filter (\<lambda>c. c = l) cols) labels)"

text \<open>A label that stands on more than one column.\<close>

definition repeated :: "string \<Rightarrow> string list \<Rightarrow> bool" where
  "repeated label cols = (1 < count_list cols label)"

section \<open>Work-Values loader\<close>

text \<open>
  The table read from the reference source: its headers after \<open>str(c).strip()\<close>, and its
  rows, each giving the cell under a header. Where a label that the loader reads stands
  on several columns, through equal headers or through the renaming of the long shape,
  the loader raises, and so does the model, at the line where the code does. One kind
  of table is outside the model: one where, after the renaming of the long shape, the
  label \<open>Data Value\<close> stands on several columns.
\<close>

type_synonym row = "string \<Rightarrow> cell"

record table =
  columns :: "string list"
  rows :: "row list"

text \<open>A row written as the list of its cells by header; a header without a cell has a
  missing value.\<close>

definition row_of :: "(string \<times> cell) list \<Rightarrow> row" where
  "row_of cells h = (case map_of cells h of Some c \<Rightarrow> c | None \<Rightarrow> NA)"

definition soc_opts :: "string list" where
  "soc_opts =
     [''SOC Code'', ''SOC'', ''Code'', ''SOC_Code'', ''Occupation Code'',
      ''O*NET-SOC Code'', ''O*NET-SOC Codes'', ''ONET SOC Code'', ''ONET SOC Codes'']"

text \<open>
  Lines 104--116: the SOC column by alias, else the first header whose canonical form
  contains both \<open>soc\<close> and \<open>code\<close>.
\<close>

definition soc_column :: "string list \<Rightarrow> string option" where
  "soc_column cols =
     (case col_like cols soc_opts of
        Some c \<Rightarrow> Some c
      | None \<Rightarrow> find (\<lambda>c. sublist ''soc'' (canon c) \<and> sublist ''code'' (canon c)) cols)"

text \<open>
  \<open>drop_duplicates(subset=["SOC Code"], keep="first")\<close> on rows that carry their SOC code
  as first component: a row is dropped when its code was seen in an earlier row.
\<close>

fun drop_dups :: "'k list \<Rightarrow> ('k \<times> 'v) list \<Rightarrow> ('k \<times> 'v) list" where
  "drop_dups seen [] = []"
| "drop_dups seen (r # rs) =
     (if fst r \<in> set seen then drop_dups seen rs else r # drop_dups (fst r # seen) rs)"

definition drop_duplicates :: "('k \<times> 'v) list \<Rightarrow> ('k \<times> 'v) list" where
  "drop_duplicates rs = drop_dups [] rs"

text \<open>
  Lines 145--151, the wide shape: project to the SOC column and the six value columns,
  normalise the SOC code, name the value columns by position, drop duplicate codes
  keeping the first. A record of the result is a SOC code and the six values in the
  order of \<open>VALUE_COLS_CANON\<close>.
\<close>

definition wide_table :: "string \<Rightarrow> string list \<Rightarrow> row list \<Rightarrow> (string \<times> cell list) list" where
  "wide_table soc_col value_cols rs =
     drop_duplicates (map (\<lambda>r. (norm_soc (r soc_col), map r value_cols)) rs)"

text \<open>
  Lines 145--151 with the labels: \<open>onet_df[keep]\<close> has, for each label of \<open>keep\<close>, every
  column that bears it. When the label \<open>SOC Code\<close> then stands on several columns,
  line 148 calls \<open>norm_soc\<close> on each of these columns (\<open>norm_soc_call\<close> on a \<open>Series\<close>),
  which raises \<open>ValueError\<close> on a frame with rows (on a frame without rows pandas does not
  make the calls). Line 149 raises \<open>ValueError\<close> when the frame has not seven columns.
  Neither is a \<open>KeyError\<close>, so the \<open>except\<close> of line 153 does not catch them.
\<close>

definition wide_shape :: "string \<Rightarrow> string list \<Rightarrow> table \<Rightarrow> error + (string \<times> cell list) list" where
  "wide_shape soc_col value_cols t =
     (let keep = soc_col # value_cols;
          out_cols = rename soc_col ''SOC Code'' (select_columns keep (columns t))
      in if rows t \<noteq> [] \<and> repeated ''SOC Code'' out_cols then Inl ValueError
         else if length out_cols \<noteq> length (''SOC Code'' # VALUE_COLS_CANON) then Inl ValueError
         else Inr (wide_table soc_col value_cols (rows t)))"

subsection \<open>Long shape\<close>

text \<open>
  A row of the working copy \<open>df\<close> after line 189: the normalised SOC code, the canonical
  value name its Element Name maps to, and the cells under Data Value, Scale Name and
  Date (\<open>NA\<close> when the table has no such column).
\<close>

record long_row =
  SOC_Code :: string
  target_value :: string
  Data_Value :: cell
  Scale_Name :: cell
  Date :: cell

text \<open>
  \<^verbatim>\<open>
  alias_to_value = {}
  for canon_value, aliases in VALUE_ALIASES.items():
      for a in aliases:
          alias_to_value[_canon(a)] = canon_value
      alias_to_value[_canon(canon_value)] = canon_value
  \<close>
\<close>

definition alias_to_value :: "(string \<times> string) list" where
  "alias_to_value =
     dict_of (concat (map (\<lambda>(canon_value, aliases).
        map (\<lambda>a. (canon a, canon_value)) aliases @ [(canon canon_value, canon_value)])
        VALUE_ALIASES))"

text \<open>
  Lines 166--189: the renamed working copy, with the SOC code normalised and the
  Element Name mapped; rows whose Element Name maps to none of the six values are
  discarded.
\<close>

definition standard_rows ::
  "string \<Rightarrow> string \<Rightarrow> string \<Rightarrow> string option \<Rightarrow> string option \<Rightarrow> row list \<Rightarrow> long_row list"
where
  "standard_rows soc_col c_elem c_val c_scale c_date rs =
     List.map_filter (\<lambda>r.
        case map_of alias_to_value (canon (py_str (r c_elem))) of
          None \<Rightarrow> None
        | Some v \<Rightarrow>
            Some \<lparr>SOC_Code = norm_soc (r soc_col), target_value = v, Data_Value = r c_val,
                  Scale_Name = (case c_scale of Some c \<Rightarrow> r c | None \<Rightarrow> NA),
                  Date = (case c_date of Some c \<Rightarrow> r c | None \<Rightarrow> NA)\<rparr>) rs"

text \<open>
  \<^verbatim>\<open>
  if "Scale Name" in df.columns:
      mask_importance = df["Scale Name"].astype(str).str.lower().str.contains("importance")
      if mask_importance.any():
          df = df[mask_importance].copy()
  \<close>
  The flag says whether the table has a Scale Name column.
\<close>

definition mask_importance :: "long_row list \<Rightarrow> bool list" where
  "mask_importance df = map (\<lambda>r. sublist ''importance'' (lower (py_str (Scale_Name r)))) df"

definition prefer_importance :: "bool \<Rightarrow> long_row list \<Rightarrow> long_row list" where
  "prefer_importance has_scale df =
     (if has_scale then
        (if list_ex (\<lambda>b. b) (mask_importance df)
         then map fst (filter snd (zip df (mask_importance df)))
         else df)
      else df)"

text \<open>
  The sort key of \<open>df.sort_values(["SOC Code", "_target_value", "__date"])\<close>, ascending
  with the default \<open>na_position="last"\<close>: a row whose date is \<open>NaT\<close> comes after every
  dated row of its SOC code and value name. \<open>to_datetime\<close> stands for
  \<open>pd.to_datetime(..., errors="coerce")\<close> on one cell: a timestamp, or \<open>None\<close> for
  \<open>NaT\<close> when the cell is missing or does not parse.
\<close>

definition date_sort_key :: "(cell \<Rightarrow> int option) \<Rightarrow> long_row \<Rightarrow> string \<times> string \<times> nat \<times> int" where
  "date_sort_key to_datetime r =
     (SOC_Code r, target_value r,
      (case to_datetime (Date r) of Some t \<Rightarrow> (0, t) | None \<Rightarrow> (1, 0)))"

text \<open>
  \<open>df.groupby(["SOC Code", "_target_value"], as_index=False).tail(1)\<close>: the rows that are
  the last of their group, in the order of \<open>df\<close>.
\<close>

fun group_tail :: "long_row list \<Rightarrow> long_row list" where
  "group_tail [] = []"
| "group_tail (r # rs) =
     (if list_ex (\<lambda>r'. SOC_Code r' = SOC_Code r \<and> target_value r' = target_value r) rs
      then group_tail rs else r # group_tail rs)"

text \<open>
  Lines 204--210. The sort is stable (\<open>sort_key\<close> is insertion sort with a key): rows
  with equal keys stay in their order. The flag says whether the table has a Date
  column.
\<close>

definition latest_by_date :: "bool \<Rightarrow> (cell \<Rightarrow> int option) \<Rightarrow> long_row list \<Rightarrow> long_row list" where
  "latest_by_date has_date to_datetime df =
     (if has_date then group_tail (sort_key (date_sort_key to_datetime) df) else df)"

text \<open>\<open>aggfunc="last"\<close>: the last entry of a group that is not missing, \<open>NA\<close> without one.\<close>

definition last_valid :: "cell list \<Rightarrow> cell" where
  "last_valid vs = (case filter (\<lambda>v. v \<noteq> NA) vs of [] \<Rightarrow> NA | w # ws \<Rightarrow> last (w # ws))"

definition pivot_cell :: "long_row list \<Rightarrow> string \<Rightarrow> string \<Rightarrow> cell" where
  "pivot_cell df s v =
     last_valid (map Data_Value (filter (\<lambda>r. SOC_Code r = s \<and> target_value r = v) df))"

text \<open>
  Lines 212--224: \<open>pivot_table(index="SOC Code", columns="_target_value",
  values="Data Value", aggfunc="last")\<close>, \<open>reset_index\<close>, the six columns completed with
  missing values, and \<open>drop_duplicates\<close>. The pivot has one row for each SOC code that
  has a group with a value, in ascending order of the code; a cell is the aggregate of
  its group, missing when the group is empty.
\<close>

definition pivot_table :: "long_row list \<Rightarrow> (string \<times> cell list) list" where
  "pivot_table df =
     map (\<lambda>s. (s, map (pivot_cell df s) VALUE_COLS_CANON))
       (sort (remdups (map SOC_Code
          (filter (\<lambda>r. pivot_cell df (SOC_Code r) (target_value r) \<noteq> NA) df))))"

text \<open>
  Lines 167--175: the dictionary \<open>ren\<close> in the order of its assignments, and the labels of
  \<open>df\<close> after \<open>df.rename(columns=ren)\<close>.
\<close>

definition long_labels ::
  "string \<Rightarrow> string \<Rightarrow> string \<Rightarrow> string option \<Rightarrow> string option \<Rightarrow> string list \<Rightarrow> string list"
where
  "long_labels soc_col c_elem c_val c_scale c_date cols =
     rename_columns
       (dict_of ([(c_elem, ''Element Name''), (c_val, ''Data Value'')] @
                 (case c_scale of Some c \<Rightarrow> [(c, ''Scale Name'')] | None \<Rightarrow> []) @
                 (case c_date of Some c \<Rightarrow> [(c, ''Date'')] | None \<Rightarrow> []) @
                 (if soc_col \<noteq> ''SOC Code'' then [(soc_col, ''SOC Code'')] else [])))
       cols"

text \<open>
  Lines 157--225, the long shape. The steps that read a label raise when the label
  stands on several columns, for \<open>df[label]\<close> is then a frame: line 178 as line 148 of
  the wide shape; line 181 \<open>ValueError\<close>, when the frame that \<open>DataFrame.map\<close> returns is
  assigned to one column (\<open>AttributeError\<close> with a pandas before 2.1, which has no
  \<open>DataFrame.map\<close>); line 199 \<open>AttributeError\<close>, a frame having no \<open>.str\<close>; line 208
  \<open>ValueError\<close>, \<open>pd.to_datetime\<close> of a frame asking for year, month and day columns. The
  \<open>KeyError\<close> of line 192 stands also for the exception that building its message may
  raise in its place.
\<close>

definition long_table ::
  "(cell \<Rightarrow> int option) \<Rightarrow> string list \<Rightarrow> string \<Rightarrow> row list \<Rightarrow> error + (string \<times> cell list) list"
where
  "long_table to_datetime cols soc_col rs =
     (case (col_like cols [''Element Name''], col_like cols [''Data Value'']) of
        (Some c_elem, Some c_val) \<Rightarrow>
          (let c_scale = col_like cols [''Scale Name'', ''Scale''];
               c_date = col_like cols [''Date''];
               labels = long_labels soc_col c_elem c_val c_scale c_date cols;
               df = standard_rows soc_col c_elem c_val c_scale c_date rs
           in if rs \<noteq> [] \<and> repeated ''SOC Code'' labels then Inl ValueError
              else if repeated ''Element Name'' labels then Inl ValueError
              else if df = [] then Inl KeyError_no_work_values
              else if repeated ''Scale Name'' labels then Inl AttributeError
              else if repeated ''Date'' labels then Inl ValueError
              else Inr (drop_duplicates (pivot_table
                     (latest_by_date (c_date \<noteq> None) to_datetime
                        (prefer_importance (c_scale \<noteq> None) df)))))
      | _ \<Rightarrow> Inl KeyError_neither_wide_nor_long)"

text \<open>
  \<open>load_onet_values\<close> on the table read: the SOC column, then the wide shape when all six
  value columns resolve, else the long shape.
\<close>

definition load_onet_values ::
  "(cell \<Rightarrow> int option) \<Rightarrow> table \<Rightarrow> error + (string \<times> cell list) list"
where
  "load_onet_values to_datetime t =
     (case soc_column (columns t) of
        None \<Rightarrow> Inl KeyError_no_soc_column
      | Some soc_col \<Rightarrow>
          (case wide_value_cols (columns t) of
             Some value_cols \<Rightarrow> wide_shape soc_col value_cols t
           | None \<Rightarrow> long_table to_datetime (columns t) soc_col (rows t)))"

section \<open>Orchestration: merge and column order\<close>

subsection \<open>The merge of line 299\<close>

text \<open>
  \<open>pd.merge(in_df, onet_df, on="SOC Code", how="left", validate="m:1", ...)\<close> on rows.
  A row of \<open>in_df\<close> is its normalised SOC code and the rest of the row; a row of
  \<open>onet_df\<close> is a SOC code and the six values. The left join gives, for each left row in
  order, one output row per right row with the same code, and one output row with
  missing values when there is none. \<open>validate="m:1"\<close> raises \<open>MergeError\<close> before joining
  when a code occurs twice on the right. The reference table has six value columns, so
  six missing values fill an unmatched row. Cells are carried as they are: that pandas
  holds a column of integers as floating-point numbers once a missing value joins it
  is not modelled.
\<close>

definition left_join ::
  "(string \<times> 'a) list \<Rightarrow> (string \<times> cell list) list \<Rightarrow> (string \<times> 'a \<times> cell list) list"
where
  "left_join left right =
     concat (map (\<lambda>(k, a).
        case filter (\<lambda>(k', vs). k' = k) right of
          [] \<Rightarrow> [(k, a, replicate (length VALUE_COLS_CANON) NA)]
        | m # ms \<Rightarrow> map (\<lambda>(k', vs). (k, a, vs)) (m # ms)) left)"

definition merge ::
  "(string \<times> 'a) list \<Rightarrow> (string \<times> cell list) list \<Rightarrow> error + (string \<times> 'a \<times> cell list) list"
where
  "merge left right =
     (if \<not> distinct (map fst right) then Inl MergeError else Inr (left_join left right))"

subsection \<open>Column names\<close>

definition job_opts :: "string list" where
  "job_opts = [''Job Title'', ''Job Titles'']"

definition soc_opts_in :: "string list" where
  "soc_opts_in =
     [''SOC Code'', ''SOC'', ''Code'', ''SOC_Code'',
      ''O*NET-SOC Codes'', ''O*NET-SOC Code'',
      ''ONET SOC Codes'', ''ONET SOC Code'',
      ''ONET-SOC Codes'', ''ONET-SOC Code'',
      ''ONET Codes'', ''ONET Code'']"

definition headcount_opts :: "string list" where
  "headcount_opts = [''HeadCount'', ''Head Count'', ''HC'']"

definition occ_title_opts :: "string list" where
  "occ_title_opts = [''Occupational Title'', ''Occupation Title'', ''ONET Title'', ''Title'']"

text \<open>How \<open>main\<close> ends without an output file: with an exit code, or with an exception that
  it does not catch.\<close>

datatype failure = Exit nat | Raised error

text \<open>
  Lines 242--289 on the column names of \<open>in_df\<close>, for an input sheet with at least one
  row; \<open>Exit 3\<close> when the input has no SOC column. The headers are stripped; the job,
  headcount and occupational-title columns are optional (\<open>KeyError\<close> becomes \<open>None\<close>).
  When the label of the SOC column stands on several columns, line 276 calls \<open>norm_soc\<close>
  on each of them (\<open>norm_soc_call\<close> on a \<open>Series\<close>), which raises \<open>ValueError\<close>. When there
  is no occupational-title column and the label of the job column stands on several
  columns, line 286 assigns a frame of several columns to one column, which raises
  \<open>ValueError\<close>.
\<close>

definition input_columns :: "string list \<Rightarrow> failure + string list" where
  "input_columns headers =
     (let cols = map strip headers;
          job_col = col_like cols job_opts
      in case find_col cols soc_opts_in of
           Inl e \<Rightarrow> Inl (Exit 3)
         | Inr soc_col_in \<Rightarrow>
            (let headcount_col = col_like cols headcount_opts;
                 occ_title_col = col_like cols occ_title_opts
             in if repeated soc_col_in cols then Inl (Raised ValueError)
                else
                  (let cols = set_column ''SOC Code'' cols;
                       cols = (case headcount_col of
                                 None \<Rightarrow> set_column ''HeadCount'' cols
                               | Some c \<Rightarrow> rename c ''HeadCount'' cols)
                   in if occ_title_col = None \<and>
                         (case job_col of Some c \<Rightarrow> repeated c cols | None \<Rightarrow> False)
                      then Inl (Raised ValueError)
                      else
                        (let cols = (case occ_title_col of
                                       Some c \<Rightarrow> rename c ''Occupational Title'' cols
                                     | None \<Rightarrow> set_column ''Occupational Title'' cols);
                             cols = (case job_col of
                                       Some c \<Rightarrow>
                                         if c \<noteq> ''Job Title'' then rename c ''Job Title'' cols
                                         else cols
                                     | None \<Rightarrow> cols)
                         in Inr cols))))"

text \<open>
  The column names of the merge result: the left columns, then the six value columns
  of the right, one whose name is also a left column taking the suffix \<open>_ONET\<close>
  (\<open>suffixes=("", "_ONET")\<close>); the key \<open>SOC Code\<close> stands once, on the left.
\<close>

definition merged_columns :: "string list \<Rightarrow> string list" where
  "merged_columns left_cols =
     left_cols @ map (\<lambda>c. if c \<in> set left_cols then c @ ''_ONET'' else c) VALUE_COLS_CANON"

definition FRONT :: "string list" where
  "FRONT = [''Job Title'', ''HeadCount'', ''SOC Code'', ''Occupational Title'']"

text \<open>
  \<^verbatim>\<open>
  front = [c for c in ["Job Title", "HeadCount", "SOC Code", "Occupational Title"] if c in merged.columns]
  vals = [c for c in VALUE_COLS_CANON if c in merged.columns]
  others = [c for c in merged.columns if c not in front + vals]
  merged = merged[front + vals + others]
  \<close>
\<close>

definition reorder_columns :: "string list \<Rightarrow> string list" where
  "reorder_columns cols =
     (let front = filter (\<lambda>c. c \<in> set cols) FRONT;
          vals = filter (\<lambda>c. c \<in> set cols) VALUE_COLS_CANON;
          others = filter (\<lambda>c. c \<notin> set (front @ vals)) cols
      in select_columns (front @ vals @ others) cols)"

text \<open>
  The column names of the file \<open>main\<close> writes, from the headers of the input file, when
  the loader has returned its table. The merge of line 299 raises \<open>ValueError\<close> when the
  key label \<open>SOC Code\<close> stands on several columns of \<open>in_df\<close>.
\<close>

definition output_columns :: "string list \<Rightarrow> failure + string list" where
  "output_columns headers =
     (case input_columns headers of
        Inl f \<Rightarrow> Inl f
      | Inr cols \<Rightarrow>
          if repeated ''SOC Code'' cols then Inl (Raised ValueError)
          else Inr (reorder_columns (merged_columns cols)))"

section \<open>Properties of SOC normalisation\<close>


lemma digit_not_space: "is_digit c \<Longrightarrow> \<not> is_space c"
  by (auto simp: is_digit_def is_space_def)

lemma filter_digit_dropWhile_space:
  "filter is_digit (dropWhile is_space s) = filter is_digit s"
  by (induction s) (auto dest: digit_not_space)

lemma filter_digit_strip: "filter is_digit (strip s) = filter is_digit s"
  by (simp add: strip_def filter_digit_dropWhile_space flip: rev_filter)

lemma strip_Nil_no_digits: "strip s = [] \<Longrightarrow> filter is_digit s = []"
  using filter_digit_strip [of s] by simp

lemma strip_fixed:
  assumes "s \<noteq> []" "\<not> is_space (hd s)" "\<not> is_space (last s)"
  shows "strip s = s"
proof -
  from assms have a: "dropWhile is_space s = s" by (cases s) auto
  from assms have "rev s \<noteq> []" "\<not> is_space (hd (rev s))" by (auto simp: hd_rev)
  then have "dropWhile is_space (rev s) = rev s" by (cases "rev s") auto
  with a show ?thesis by (simp add: strip_def)
qed

lemma strip_ends:
  "strip s = [] \<or> (\<not> is_space (hd (strip s)) \<and> \<not> is_space (last (strip s)))"
proof (cases "strip s = []")
  case True then show ?thesis by simp
next
  case False
  define t where "t = dropWhile is_space s"
  define w where "w = dropWhile is_space (rev t)"
  have sw: "strip s = rev w" by (simp add: strip_def t_def w_def)
  with False have wne: "w \<noteq> []" by simp
  then have "\<not> is_space (hd w)" unfolding w_def by (rule hd_dropWhile)
  with wne have l: "\<not> is_space (last (rev w))" by (simp add: last_rev)
  have "rev t = takeWhile is_space (rev t) @ w" by (simp add: w_def)
  then have "rev (rev t) = rev (takeWhile is_space (rev t) @ w)" by simp
  then have tt: "t = rev w @ rev (takeWhile is_space (rev t))"
    by (simp only: rev_append rev_rev_ident)
  from wne have "hd (rev w @ rev (takeWhile is_space (rev t))) = hd (rev w)" by simp
  with tt have ht: "hd t = hd (rev w)" by simp
  from tt wne have tne: "t \<noteq> []" by (cases t) auto
  from tne have "\<not> is_space (hd t)" unfolding t_def by (rule hd_dropWhile)
  with ht l sw show ?thesis by simp
qed

lemma strip_strip: "strip (strip s) = strip s"
proof (cases "strip s = []")
  case True
  have "strip [] = []" by (simp add: strip_def)
  with True show ?thesis by simp
next
  case False
  with strip_ends [of s] show ?thesis by (simp add: strip_fixed)
qed

lemma not_digit_hyphen: "\<not> is_digit CHR ''-''" by (simp add: is_digit_def)

lemma filter_digit_all: "list_all is_digit d \<Longrightarrow> filter is_digit d = d"
  by (induction d) auto

lemma list_all_digit_filter: "list_all is_digit (filter is_digit s)"
  by (induction s) auto

lemma digits_sub:
  assumes "list_all is_digit d"
  shows "list_all is_digit (take n d)" "list_all is_digit (drop n d)"
    "list_all is_digit (take n (drop m d))"
proof -
  have "set (take n d) \<subseteq> set d" "set (drop n d) \<subseteq> set d"
    "set (take n (drop m d)) \<subseteq> set d"
    using set_take_subset [of n d] set_drop_subset [of n d]
      set_take_subset [of n "drop m d"] set_drop_subset [of m d] by blast+
  with assms show "list_all is_digit (take n d)" "list_all is_digit (drop n d)"
    "list_all is_digit (take n (drop m d))"
    unfolding list_all_iff by blast+
qed

lemma strip_digit_ends:
  assumes "s \<noteq> []" "is_digit (hd s)" "is_digit (last s)"
  shows "strip s = s"
  using assms by (simp add: strip_fixed digit_not_space)

lemma filter_digit_long:
  assumes d: "list_all is_digit d"
  shows "filter is_digit (take 2 d @ ''-'' @ take 5 (drop 2 d) @ (if drop 7 d \<noteq> [] then ''-'' @ drop 7 d else [])) = d"
proof -
  have t: "filter is_digit (take n d) = take n d" "filter is_digit (drop n d) = drop n d"
    "filter is_digit (take n (drop m d)) = take n (drop m d)" for n m
    using digits_sub [OF d] by (simp_all add: filter_digit_all)
  have "take 7 d = take 2 d @ take 5 (drop 2 d)"
    using take_add [of 2 5 d] by simp
  then have "take 2 d @ take 5 (drop 2 d) @ drop 7 d = d"
    using append_take_drop_id [of 7 d] by simp
  then show ?thesis using t by (simp add: filter_digit_all not_digit_hyphen)
qed


lemma norm_soc_long_fixed:
  assumes d: "list_all is_digit d" and n: "7 \<le> length d"
  shows "norm_soc (Str (take 2 d @ ''-'' @ take 5 (drop 2 d) @ (if drop 7 d \<noteq> [] then ''-'' @ drop 7 d else [])))
     = take 2 d @ ''-'' @ take 5 (drop 2 d) @ (if drop 7 d \<noteq> [] then ''-'' @ drop 7 d else [])"
    (is "norm_soc (Str ?r) = ?r")
proof -
  from n have dne: "d \<noteq> []" by auto
  with d have h: "is_digit (hd d)" by (cases d) auto
  from n have "take 2 d \<noteq> []" by auto
  then have rne: "?r \<noteq> []" and hr: "hd ?r = hd d" by auto
  have lr: "is_digit (last ?r)"
  proof (cases "drop 7 d = []")
    case True
    with n have "take 5 (drop 2 d) \<noteq> []" by auto
    moreover have "list_all is_digit (take 5 (drop 2 d))"
      by (rule digits_sub [OF d])
    ultimately have "is_digit (last (take 5 (drop 2 d)))"
      by (metis last_in_set list_all_iff)
    with True \<open>take 5 (drop 2 d) \<noteq> []\<close> show ?thesis by simp
  next
    case False
    moreover have "list_all is_digit (drop 7 d)"
      by (rule digits_sub [OF d])
    ultimately have "is_digit (last (drop 7 d))"
      by (metis last_in_set list_all_iff)
    with False show ?thesis by simp
  qed
  from rne h hr lr have s: "strip ?r = ?r" by (intro strip_digit_ends) simp_all
  have f: "filter is_digit ?r = d" by (rule filter_digit_long [OF d])
  show ?thesis
    unfolding norm_soc_def as_str.simps s Let_def f using n rne by simp
qed


lemma norm_soc_short_fixed:
  assumes d: "list_all is_digit d" and n: "length d \<in> {5, 6}"
  shows "norm_soc (Str (take 2 d @ ''-'' @ drop 2 d)) = take 2 d @ ''-'' @ drop 2 d"
    (is "norm_soc (Str ?r) = ?r")
proof -
  from n have dne: "d \<noteq> []" by auto
  with d have h: "is_digit (hd d)" by (cases d) auto
  from n have "take 2 d \<noteq> []" by auto
  then have rne: "?r \<noteq> []" and hr: "hd ?r = hd d" by auto
  from n have d2: "drop 2 d \<noteq> []" by auto
  moreover have "list_all is_digit (drop 2 d)" by (rule digits_sub [OF d])
  ultimately have "is_digit (last (drop 2 d))" by (metis last_in_set list_all_iff)
  with d2 have lr: "is_digit (last ?r)" by simp
  from rne h hr lr have s: "strip ?r = ?r" by (intro strip_digit_ends) simp_all
  have "filter is_digit ?r = take 2 d @ drop 2 d"
    using digits_sub [OF d] by (simp add: filter_digit_all not_digit_hyphen)
  then have f: "filter is_digit ?r = d" by simp
  show ?thesis
    unfolding norm_soc_def as_str.simps s Let_def f using n rne by auto
qed

text \<open>
  C1. When the input has at least seven digits, \<open>norm_soc\<close> returns the first two
  digits, a hyphen, the next five digits and, when digits remain, a second hyphen and
  the remaining digits; when it has five or six digits, the first two digits, a hyphen
  and the remaining digits. The digits are those of the input with every other
  character removed.
\<close>

theorem norm_soc_format:
  "(7 \<le> length (filter is_digit (as_str c)) \<longrightarrow>
      norm_soc c = take 2 (filter is_digit (as_str c)) @ ''-'' @
                   take 5 (drop 2 (filter is_digit (as_str c))) @
                   (if drop 7 (filter is_digit (as_str c)) \<noteq> []
                    then ''-'' @ drop 7 (filter is_digit (as_str c)) else [])) \<and>
   (length (filter is_digit (as_str c)) \<in> {5, 6} \<longrightarrow>
      norm_soc c = take 2 (filter is_digit (as_str c)) @ ''-'' @
                   drop 2 (filter is_digit (as_str c)))"
proof -
  have "strip (as_str c) \<noteq> []" if "5 \<le> length (filter is_digit (as_str c))"
    using that strip_Nil_no_digits [of "as_str c"] by auto
  then show ?thesis
    by (auto simp: norm_soc_def Let_def filter_digit_strip)
qed

theorem norm_soc_format_witness:
  "7 \<le> length (filter is_digit (as_str (Str '' 15-1251.00 ''))) \<and>
   norm_soc (Str '' 15-1251.00 '') = ''15-12510-0'' \<and>
   length (filter is_digit (as_str (Str ''131081''))) \<in> {5, 6} \<and>
   norm_soc (Str ''131081'') = ''13-1081''"
  using norm_soc_format [of "Str '' 15-1251.00 ''"] norm_soc_format [of "Str ''131081''"]
  by (simp add: is_digit_def)

text \<open>
  C2. SOC normalisation is idempotent: normalising the result of \<open>norm_soc\<close> again
  returns it unchanged, for every input. In particular a canonical code, two digits, a
  hyphen and the other digits of a digit string of length 5, 6 or 7, is returned
  unchanged.
\<close>

theorem norm_soc_idempotent:
  "norm_soc (Str (norm_soc c)) = norm_soc c \<and>
   (list_all is_digit d \<and> length d \<in> {5, 6, 7} \<longrightarrow>
      norm_soc (Str (take 2 d @ ''-'' @ drop 2 d)) = take 2 d @ ''-'' @ drop 2 d)"
proof
  let ?s = "strip (as_str c)"
  let ?d = "filter is_digit ?s"
  have dd: "list_all is_digit ?d" by (rule list_all_digit_filter)
  have e: "norm_soc (Str []) = []" by (simp add: norm_soc_def strip_def)
  consider "?s = []" | "?s \<noteq> []" "7 \<le> length ?d" | "?s \<noteq> []" "length ?d \<in> {5, 6}"
    | "?s \<noteq> []" "length ?d < 5"
    by force
  then show "norm_soc (Str (norm_soc c)) = norm_soc c"
  proof cases
    case 1
    then have "norm_soc c = []" by (simp add: norm_soc_def)
    with e show ?thesis by simp
  next
    case 2
    then have "norm_soc c = take 2 ?d @ ''-'' @ take 5 (drop 2 ?d) @
        (if drop 7 ?d \<noteq> [] then ''-'' @ drop 7 ?d else [])"
      unfolding norm_soc_def Let_def by simp
    with norm_soc_long_fixed [OF dd 2(2)] show ?thesis by simp
  next
    case 3
    then have "norm_soc c = take 2 ?d @ ''-'' @ drop 2 ?d"
      unfolding norm_soc_def Let_def by auto
    with norm_soc_short_fixed [OF dd 3(2)] show ?thesis by simp
  next
    case 4
    then have r: "norm_soc c = ?s" unfolding norm_soc_def Let_def by auto
    from 4 have "norm_soc (Str ?s) = ?s"
      unfolding norm_soc_def Let_def as_str.simps strip_strip by auto
    with r show ?thesis by simp
  qed
next
  show "list_all is_digit d \<and> length d \<in> {5, 6, 7} \<longrightarrow>
      norm_soc (Str (take 2 d @ ''-'' @ drop 2 d)) = take 2 d @ ''-'' @ drop 2 d"
  proof
    assume a: "list_all is_digit d \<and> length d \<in> {5, 6, 7}"
    show "norm_soc (Str (take 2 d @ ''-'' @ drop 2 d)) = take 2 d @ ''-'' @ drop 2 d"
    proof (cases "length d = 7")
      case True
      then have "7 \<le> length d" by simp
      from norm_soc_long_fixed [OF conjunct1 [OF a] this] True show ?thesis by simp
    next
      case False
      with a have "length d \<in> {5, 6}" by auto
      from norm_soc_short_fixed [OF conjunct1 [OF a] this] show ?thesis .
    qed
  qed
qed

theorem norm_soc_idempotent_witness:
  "norm_soc (Str (norm_soc (Str ''13 1081''))) = norm_soc (Str ''13 1081'') \<and>
   list_all is_digit ''1512511'' \<and> length ''1512511'' \<in> {5, 6, 7 :: nat} \<and>
   norm_soc (Str ''15-12511'') = ''15-12511''"
  using norm_soc_idempotent [of "Str ''13 1081''" "''1512511''"]
  by (simp add: is_digit_def)

text \<open>
  C10 (as amended). With fewer than five digits in the input, \<open>norm_soc\<close> returns the
  input with its leading and trailing whitespace removed and nothing else changed; a
  missing value and the empty string give the empty string. No cell raises an error:
  on a string, a missing value or any other scalar, \<open>norm_soc\<close> returns a string.
\<close>

theorem norm_soc_passthrough:
  "(\<exists>s. norm_soc_call (Cell c) = Inr s) \<and>
   (length (filter is_digit (as_str c)) < 5 \<longrightarrow>
      norm_soc_call (Cell c) = Inr (strip (as_str c))) \<and>
   norm_soc_call (Cell NA) = Inr [] \<and> norm_soc_call (Cell (Str [])) = Inr []"
proof -
  have "norm_soc c = strip (as_str c)" if "length (filter is_digit (as_str c)) < 5"
    using that by (auto simp: norm_soc_def Let_def filter_digit_strip)
  moreover have "norm_soc NA = []" "norm_soc (Str []) = []"
    by (simp_all add: norm_soc_def strip_def)
  ultimately show ?thesis by simp
qed

theorem norm_soc_passthrough_witness:
  "length (filter is_digit (as_str (Str ''  n/a 12 ''))) < 5 \<and>
   norm_soc_call (Cell (Str ''  n/a 12 '')) = Inr ''n/a 12''"
  using norm_soc_passthrough [of "Str ''  n/a 12 ''"]
  by (simp add: is_digit_def strip_def is_space_def)

text \<open>
  C10 as stated fails: \<open>norm_soc\<close> raises when it is handed a column instead of a cell,
  as line 276 does for an input sheet in which two headers of the SOC column are equal
  once stripped.
\<close>

theorem norm_soc_series_raises_counterexample:
  "norm_soc_call (Series [Str ''13-1081'', Str ''11-1011'']) = Inl ValueError \<and>
   input_columns ['' soc'', ''soc '', ''Job Title''] = Inl (Raised ValueError)"
  by code_simp

section \<open>Properties of the column resolver\<close>


lemma dict_of_snoc: "dict_of (kvs @ [(k, v)]) = AList.update k v (dict_of kvs)"
  by (simp add: dict_of_def)

lemma map_of_dict_of: "map_of (dict_of kvs) = map_of (rev kvs)"
proof (induction kvs rule: rev_induct)
  case Nil
  show ?case by (simp add: dict_of_def)
next
  case (snoc x kvs)
  obtain k v where x: "x = (k, v)" by (cases x)
  show ?case unfolding x dict_of_snoc by (simp add: update_conv' snoc.IH)
qed

lemma keys_dict_of: "set (map fst (dict_of kvs)) = set (map fst kvs)"
proof (induction kvs rule: rev_induct)
  case Nil
  show ?case by (simp add: dict_of_def)
next
  case (snoc x kvs)
  obtain k v where x: "x = (k, v)" by (cases x)
  from snoc.IH show ?case unfolding x dict_of_snoc by (auto simp: dom_update)
qed

lemma find_snoc:
  "find P (xs @ [x]) = (case find P xs of Some y \<Rightarrow> Some y | None \<Rightarrow> if P x then Some x else None)"
  by (induction xs) auto

lemma find_keys_dict_of: "find P (map fst (dict_of kvs)) = find P (map fst kvs)"
proof (induction kvs rule: rev_induct)
  case Nil
  show ?case by (simp add: dict_of_def)
next
  case (snoc x kvs)
  obtain k v where x: "x = (k, v)" by (cases x)
  show ?case
  proof (cases "k \<in> set (map fst (dict_of kvs))")
    case True
    then have m: "map fst (dict_of (kvs @ [x])) = map fst (dict_of kvs)"
      unfolding x dict_of_snoc by (simp add: update_keys)
    from True have "k \<in> set (map fst kvs)" by (simp only: keys_dict_of)
    then have "find P (map fst kvs) = None \<Longrightarrow> \<not> P k"
      by (auto simp: find_None_iff)
    then show ?thesis unfolding m snoc.IH
      by (simp add: x find_snoc split: option.split)
  next
    case False
    then have m: "map fst (dict_of (kvs @ [x])) = map fst (dict_of kvs) @ [k]"
      unfolding x dict_of_snoc by (simp add: update_keys)
    show ?thesis unfolding m by (simp add: x find_snoc snoc.IH)
  qed
qed

lemma contains_in_headers_find:
  "contains_in_headers a ch =
     (case find (sublist a) (map fst ch) of None \<Rightarrow> None | Some k \<Rightarrow> map_of ch k)"
proof (induction ch)
  case Nil
  show ?case by simp
next
  case (Cons p ch)
  show ?case
  proof (cases "sublist a (fst p)")
    case True
    then show ?thesis by (cases p) simp
  next
    case False
    have "k \<noteq> fst p" if "find (sublist a) (map fst ch) = Some k" for k
      using that False by (auto simp: find_Some_iff)
    with False Cons.IH show ?thesis by (cases p) (auto split: option.split)
  qed
qed

lemma map_of_rev_canon:
  "map_of (rev (map (\<lambda>c. (canon c, c)) hs)) a = find (\<lambda>h. canon h = a) (rev hs)"
proof (induction hs)
  case Nil
  show ?case by simp
next
  case (Cons h hs)
  show ?case
    by (simp add: find_snoc map_add_def Cons.IH [symmetric] split: option.split)
qed

lemma map_of_canon_headers:
  "map_of (canon_headers hs) a = find (\<lambda>h. canon h = a) (rev hs)"
  by (simp add: canon_headers_def map_of_dict_of map_of_rev_canon flip: rev_map)

lemma exact_match_find:
  "exact_match ch as =
     (case find (\<lambda>a. map_of ch a \<noteq> None) as of Some a \<Rightarrow> map_of ch a | None \<Rightarrow> None)"
  by (induction as) (auto split: option.split)

lemma contains_match_find:
  "contains_match ch as =
     (case find (\<lambda>a. contains_in_headers a ch \<noteq> None) as of
        Some a \<Rightarrow> contains_in_headers a ch | None \<Rightarrow> None)"
  by (induction as) (auto split: option.split)

lemma find_map: "find P (map f xs) = map_option f (find (P \<circ> f) xs)"
  by (induction xs) auto

lemma contains_in_canon_headers:
  "contains_in_headers a (canon_headers hs) =
     (case find (\<lambda>h. sublist a (canon h)) hs of
        None \<Rightarrow> None
      | Some h0 \<Rightarrow> find (\<lambda>h. canon h = canon h0) (rev hs))"
proof -
  have "find (sublist a) (map fst (canon_headers hs)) = find (sublist a) (map canon hs)"
    unfolding canon_headers_def find_keys_dict_of by (simp add: comp_def)
  also have "\<dots> = map_option canon (find (\<lambda>h. sublist a (canon h)) hs)"
    by (simp add: find_map comp_def)
  finally show ?thesis
    by (simp add: contains_in_headers_find map_of_canon_headers split: option.split)
qed

text \<open>
  C6 (as amended). The resolver tries exact canonical equality across all variants
  before any containment match. Within a stage the variants are tried in the order of
  the alias list, and the first variant that matches a header decides, whatever the
  position of that header: the match is the earliest header, in column order, whose
  canonical form equals (exact stage) or contains (containment stage) that variant,
  and when several headers share the canonical form of that header, the last of them
  is returned.
\<close>

theorem find_value_col_order:
  "find_value_col (canon_headers hs) as =
     (case find (\<lambda>a. \<exists>h \<in> set hs. canon h = a) as of
        Some a \<Rightarrow> find (\<lambda>h. canon h = a) (rev hs)
      | None \<Rightarrow>
          (case find (\<lambda>a. \<exists>h \<in> set hs. sublist a (canon h)) as of
             Some a \<Rightarrow>
               (case find (\<lambda>h. sublist a (canon h)) hs of
                  Some h0 \<Rightarrow> find (\<lambda>h. canon h = canon h0) (rev hs)
                | None \<Rightarrow> None)
           | None \<Rightarrow> None))"
proof -
  have p1: "(map_of (canon_headers hs) a \<noteq> None) = (\<exists>h \<in> set hs. canon h = a)" for a
    by (auto simp: map_of_canon_headers find_None_iff)
  have p2: "(contains_in_headers a (canon_headers hs) \<noteq> None) = (\<exists>h \<in> set hs. sublist a (canon h))" for a
  proof (cases "find (\<lambda>h. sublist a (canon h)) hs")
    case None
    then have "\<not> (\<exists>h \<in> set hs. sublist a (canon h))" by (auto simp: find_None_iff)
    with None show ?thesis by (simp add: contains_in_canon_headers)
  next
    case (Some h0)
    then have "h0 \<in> set hs" "sublist a (canon h0)" by (auto simp: find_Some_iff)
    then have "find (\<lambda>h. canon h = canon h0) (rev hs) \<noteq> None" "\<exists>h \<in> set hs. sublist a (canon h)"
      by (auto simp: find_None_iff)
    with Some show ?thesis by (simp add: contains_in_canon_headers)
  qed
  have e: "exact_match (canon_headers hs) as =
      (case find (\<lambda>a. \<exists>h \<in> set hs. canon h = a) as of
         Some a \<Rightarrow> find (\<lambda>h. canon h = a) (rev hs) | None \<Rightarrow> None)"
    unfolding exact_match_find p1 by (simp add: map_of_canon_headers split: option.split)
  have c: "contains_match (canon_headers hs) as =
      (case find (\<lambda>a. \<exists>h \<in> set hs. sublist a (canon h)) as of
             Some a \<Rightarrow>
               (case find (\<lambda>h. sublist a (canon h)) hs of
                  Some h0 \<Rightarrow> find (\<lambda>h. canon h = canon h0) (rev hs)
                | None \<Rightarrow> None)
           | None \<Rightarrow> None)"
    unfolding contains_match_find p2 by (simp add: contains_in_canon_headers split: option.split)
  have n: "find (\<lambda>h. canon h = a) (rev hs) \<noteq> None"
    if "find (\<lambda>a. \<exists>h \<in> set hs. canon h = a) as = Some a" for a
    using that by (auto simp: find_Some_iff find_None_iff)
  show ?thesis
    unfolding find_value_col_def e c using n by (auto split: option.split)
qed

theorem find_value_col_order_witness:
  "find_value_col (canon_headers [''Work Condition'', ''Support'', ''Working Conditions''])
     (value_aliases ''Working Conditions'') = Some ''Working Conditions''"
  by (subst find_value_col_order) code_simp

text \<open>
  C6 as stated fails: with the headers Relationships, Relationship both match at the
  exact stage, and the later one is returned, because its variant stands first in the
  alias list.
\<close>

theorem find_value_col_header_order_counterexample:
  "find_value_col (canon_headers [''Relationships'', ''Relationship''])
     (value_aliases ''Relationships'')
   \<noteq> resolve_by_header_order [''Relationships'', ''Relationship'']
       (value_aliases ''Relationships'')"
  by code_simp

section \<open>Properties of the long-shape loader\<close>

lemma zip_mask_filter: "map fst (filter snd (zip xs (map f xs))) = filter f xs"
  by (induction xs) auto

lemma prefer_importance_filter:
  "prefer_importance True df =
     (if \<exists>r \<in> set df. sublist ''importance'' (lower (py_str (Scale_Name r)))
      then filter (\<lambda>r. sublist ''importance'' (lower (py_str (Scale_Name r)))) df
      else df)"
  by (auto simp: prefer_importance_def mask_importance_def zip_mask_filter list_ex_iff)

text \<open>
  The scale step in the loader: when the loader returns a table for a long-shape source
  with a Scale Name column, the table is the pivot of exactly the rows whose scale name
  contains \<open>importance\<close>, whatever the case of its letters, if there is such a row, and
  of all rows otherwise.
\<close>

lemma load_onet_values_prefers_importance:
  assumes "load_onet_values to_datetime t = Inr out"
    and "wide_value_cols (columns t) = None"
    and "soc_column (columns t) = Some soc_col"
    and "col_like (columns t) [''Element Name''] = Some c_elem"
    and "col_like (columns t) [''Data Value''] = Some c_val"
    and "col_like (columns t) [''Scale Name'', ''Scale''] = Some c_scale"
  shows "out =
     drop_duplicates (pivot_table
       (latest_by_date (col_like (columns t) [''Date''] \<noteq> None) to_datetime
          (if \<exists>r \<in> set (standard_rows soc_col c_elem c_val (Some c_scale)
                  (col_like (columns t) [''Date'']) (rows t)).
                sublist ''importance'' (lower (py_str (Scale_Name r)))
           then filter (\<lambda>r. sublist ''importance'' (lower (py_str (Scale_Name r))))
                  (standard_rows soc_col c_elem c_val (Some c_scale)
                     (col_like (columns t) [''Date'']) (rows t))
           else standard_rows soc_col c_elem c_val (Some c_scale)
                  (col_like (columns t) [''Date'']) (rows t))))"
proof -
  from assms have "long_table to_datetime (columns t) soc_col (rows t) = Inr out"
    by (simp add: load_onet_values_def)
  with assms(4-6) have
    "out = drop_duplicates (pivot_table
       (latest_by_date (col_like (columns t) [''Date''] \<noteq> None) to_datetime
          (prefer_importance True
             (standard_rows soc_col c_elem c_val (Some c_scale)
                (col_like (columns t) [''Date'']) (rows t)))))"
    by (simp add: long_table_def Let_def split: if_splits)
  then show ?thesis unfolding prefer_importance_filter .
qed

lemma load_onet_values_importance_example:
  "load_onet_values (map_of [])
     \<lparr>columns = [''SOC Code'', ''Element Name'', ''Scale Name'', ''Data Value''],
      rows = [row_of [(''SOC Code'', Str ''15-1251''), (''Element Name'', Str ''Achievement''),
                      (''Scale Name'', Str ''Extent (IMPORTANCE)''),
                      (''Data Value'', Scalar ''4.5'')],
              row_of [(''SOC Code'', Str ''15-1251''), (''Element Name'', Str ''Achievement''),
                      (''Scale Name'', Str ''Level''), (''Data Value'', Scalar ''2.0'')],
              row_of [(''SOC Code'', Str ''11-1011''), (''Element Name'', Str ''Support''),
                      (''Scale Name'', Str ''Level''), (''Data Value'', Scalar ''6.0'')]]\<rparr>
   = Inr [(''15-1251'', [Scalar ''4.5'', NA, NA, NA, NA, NA])] \<and>
   load_onet_values (map_of [])
     \<lparr>columns = [''SOC Code'', ''Element Name'', ''Scale Name'', ''Data Value''],
      rows = [row_of [(''SOC Code'', Str ''15-1251''), (''Element Name'', Str ''Achievement''),
                      (''Scale Name'', Str ''Level''), (''Data Value'', Scalar ''2.0'')],
              row_of [(''SOC Code'', Str ''11-1011''), (''Element Name'', Str ''Support''),
                      (''Scale Name'', Str ''Level''), (''Data Value'', Scalar ''6.0'')]]\<rparr>
   = Inr [(''11-1011'', [NA, NA, NA, NA, Scalar ''6.0'', NA]),
          (''15-1251'', [Scalar ''2.0'', NA, NA, NA, NA, NA])]"
  by code_simp

text \<open>
  C7. In the long-shape loader, with a Scale Name column present and a row whose scale
  name contains \<open>importance\<close>, the rows whose scale name contains it are to be kept. The
  loader does so when one column bears the label, as the lemmas above state. It fails
  on a source that has a column \<open>Scale\<close> before a column \<open>Scale Name\<close>: the first is
  renamed to \<open>Scale Name\<close>, the label then stands on two columns, and line 199 raises
  \<open>AttributeError\<close>; no row is kept.
\<close>

theorem load_onet_values_two_scale_columns_raises:
  "load_onet_values (map_of [])
     \<lparr>columns = [''SOC Code'', ''Element Name'', ''Scale'', ''Scale Name'', ''Data Value''],
      rows = [row_of [(''SOC Code'', Str ''15-1251''), (''Element Name'', Str ''Achievement''),
                      (''Scale'', Str ''IM''), (''Scale Name'', Str ''Importance''),
                      (''Data Value'', Scalar ''4.5'')]]\<rparr>
   = Inl AttributeError"
  by code_simp

text \<open>
  C5. With a Date column present, the row that survives in a group is the last one in
  sorted order. That is the row with the latest date only when every date of the group
  parses: a row whose date is missing or does not parse is sorted after all dated rows
  of its group, so it is the one that survives. Here the group has an undated row with
  the value 3.0, first in the file, and a row dated 2023-01-01 with the value 4.5; the
  undated row survives.
\<close>

theorem latest_by_date_undated_row_survives:
  "latest_by_date True (map_of [(Str ''2023-01-01'', 19358)])
     [\<lparr>SOC_Code = ''15-1251'', target_value = ''Achievement'', Data_Value = Scalar ''3.0'',
        Scale_Name = Str ''Importance'', Date = Str ''n/a''\<rparr>,
      \<lparr>SOC_Code = ''15-1251'', target_value = ''Achievement'', Data_Value = Scalar ''4.5'',
        Scale_Name = Str ''Importance'', Date = Str ''2023-01-01''\<rparr>]
   = [\<lparr>SOC_Code = ''15-1251'', target_value = ''Achievement'', Data_Value = Scalar ''3.0'',
        Scale_Name = Str ''Importance'', Date = Str ''n/a''\<rparr>]"
  by code_simp


section \<open>Properties of the loader\<close>

lemma drop_dups_keys:
  "distinct (map fst (drop_dups seen rs)) \<and> set (map fst (drop_dups seen rs)) \<inter> set seen = {}"
  by (induction seen rs rule: drop_dups.induct) auto

lemma distinct_drop_duplicates: "distinct (map fst (drop_duplicates rs))"
  using drop_dups_keys [of "[]" rs] by (simp add: drop_duplicates_def)

lemma map_of_drop_dups:
  "map_of (drop_dups seen rs) k = (if k \<in> set seen then None else map_of rs k)"
proof (induction seen rs rule: drop_dups.induct)
  case (1 seen)
  show ?case by simp
next
  case (2 seen r rs)
  obtain k' v where r: "r = (k', v)" by (cases r)
  from 2 show ?case by (auto simp: r)
qed

lemma map_of_drop_duplicates: "map_of (drop_duplicates rs) = map_of rs"
  by (rule ext) (simp add: drop_duplicates_def map_of_drop_dups)

lemma load_onet_values_distinct:
  assumes "load_onet_values to_datetime t = Inr out"
  shows "distinct (map fst out)"
proof -
  from assms obtain soc_col where s: "soc_column (columns t) = Some soc_col"
    by (auto simp: load_onet_values_def split: option.splits)
  show ?thesis
  proof (cases "wide_value_cols (columns t)")
    case (Some value_cols)
    with assms s have "wide_shape soc_col value_cols t = Inr out"
      by (simp add: load_onet_values_def)
    then have "out = wide_table soc_col value_cols (rows t)"
      by (simp add: wide_shape_def Let_def split: if_splits)
    then show ?thesis by (simp add: wide_table_def distinct_drop_duplicates)
  next
    case None
    with assms s have "long_table to_datetime (columns t) soc_col (rows t) = Inr out"
      by (simp add: load_onet_values_def)
    then obtain df where "out = drop_duplicates (pivot_table df)"
      by (auto simp: long_table_def Let_def split: option.splits if_splits)
    then show ?thesis by (simp add: distinct_drop_duplicates)
  qed
qed

text \<open>
  C8 (as amended). The table the loader returns, in either shape, has at most one record
  for each normalised SOC code. In the wide shape the record of a code is that of the
  first row with the code: duplicates collapse first-write-wins. In the long shape each
  of the six values of a record is the last Data Value that is not missing among the
  rows of its SOC code and value name that reach the pivot.
\<close>

theorem loader_one_record_per_soc:
  "(load_onet_values to_datetime t = Inr out \<longrightarrow> distinct (map fst out)) \<and>
   map_of (wide_table soc_col value_cols rs) =
     map_of (map (\<lambda>r. (norm_soc (r soc_col), map r value_cols)) rs) \<and>
   ((s, vs) \<in> set (drop_duplicates (pivot_table df)) \<longrightarrow>
      vs = map (\<lambda>v. last_valid (map Data_Value
                 (filter (\<lambda>r. SOC_Code r = s \<and> target_value r = v) df))) VALUE_COLS_CANON)"
proof -
  have c: "vs = map (\<lambda>v. last_valid (map Data_Value
                 (filter (\<lambda>r. SOC_Code r = s \<and> target_value r = v) df))) VALUE_COLS_CANON"
    if "(s, vs) \<in> set (drop_duplicates (pivot_table df))"
  proof -
    have "distinct (map fst (pivot_table df))"
      by (simp add: pivot_table_def comp_def)
    from that have "map_of (drop_duplicates (pivot_table df)) s = Some vs"
      using distinct_drop_duplicates [of "pivot_table df"] by simp
    then have "map_of (pivot_table df) s = Some vs" by (simp add: map_of_drop_duplicates)
    then have "(s, vs) \<in> set (pivot_table df)" by (rule map_of_SomeD)
    then show ?thesis by (auto simp: pivot_table_def pivot_cell_def)
  qed
  show ?thesis
    using load_onet_values_distinct [of to_datetime t out] c
    by (simp add: wide_table_def map_of_drop_duplicates)
qed


theorem loader_one_record_per_soc_witness:
  "load_onet_values (map_of [])
     \<lparr>columns = [''SOC Code'', ''Element Name'', ''Data Value''],
      rows = [row_of [(''SOC Code'', Str ''151251''), (''Element Name'', Str ''Support''),
                      (''Data Value'', Scalar ''3.0'')],
              row_of [(''SOC Code'', Str ''15-1251''), (''Element Name'', Str ''Support''),
                      (''Data Value'', Scalar ''4.5'')]]\<rparr>
   = Inr [(''15-1251'', [NA, NA, NA, NA, Scalar ''4.5'', NA])] \<and>
   distinct (map fst [(''15-1251'', [NA, NA, NA, NA, Scalar ''4.5'', NA])]) \<and>
   (''15-1251'', [NA, NA, NA, NA, Scalar ''4.5'', NA]) \<in> set (drop_duplicates (pivot_table
      [\<lparr>SOC_Code = ''15-1251'', target_value = ''Support'', Data_Value = Scalar ''3.0'',
         Scale_Name = NA, Date = NA\<rparr>,
       \<lparr>SOC_Code = ''15-1251'', target_value = ''Support'', Data_Value = Scalar ''4.5'',
         Scale_Name = NA, Date = NA\<rparr>])) \<and>
   [NA, NA, NA, NA, Scalar ''4.5'', NA] =
     map (\<lambda>v. last_valid (map Data_Value (filter (\<lambda>r. SOC_Code r = ''15-1251'' \<and> target_value r = v)
      [\<lparr>SOC_Code = ''15-1251'', target_value = ''Support'', Data_Value = Scalar ''3.0'',
         Scale_Name = NA, Date = NA\<rparr>,
       \<lparr>SOC_Code = ''15-1251'', target_value = ''Support'', Data_Value = Scalar ''4.5'',
         Scale_Name = NA, Date = NA\<rparr>]))) VALUE_COLS_CANON"
proof -
  have l: "load_onet_values (map_of [])
     \<lparr>columns = [''SOC Code'', ''Element Name'', ''Data Value''],
      rows = [row_of [(''SOC Code'', Str ''151251''), (''Element Name'', Str ''Support''),
                      (''Data Value'', Scalar ''3.0'')],
              row_of [(''SOC Code'', Str ''15-1251''), (''Element Name'', Str ''Support''),
                      (''Data Value'', Scalar ''4.5'')]]\<rparr>
   = Inr [(''15-1251'', [NA, NA, NA, NA, Scalar ''4.5'', NA])]"
    by code_simp
  have p: "(''15-1251'', [NA, NA, NA, NA, Scalar ''4.5'', NA]) \<in> set (drop_duplicates (pivot_table
      [\<lparr>SOC_Code = ''15-1251'', target_value = ''Support'', Data_Value = Scalar ''3.0'',
         Scale_Name = NA, Date = NA\<rparr>,
       \<lparr>SOC_Code = ''15-1251'', target_value = ''Support'', Data_Value = Scalar ''4.5'',
         Scale_Name = NA, Date = NA\<rparr>]))"
    by code_simp
  from loader_one_record_per_soc [of "map_of []"
     "\<lparr>columns = [''SOC Code'', ''Element Name'', ''Data Value''],
      rows = [row_of [(''SOC Code'', Str ''151251''), (''Element Name'', Str ''Support''),
                      (''Data Value'', Scalar ''3.0'')],
              row_of [(''SOC Code'', Str ''15-1251''), (''Element Name'', Str ''Support''),
                      (''Data Value'', Scalar ''4.5'')]]\<rparr>"
     "[(''15-1251'', [NA, NA, NA, NA, Scalar ''4.5'', NA])]" _ _ _
     "''15-1251''" "[NA, NA, NA, NA, Scalar ''4.5'', NA]"
     "[\<lparr>SOC_Code = ''15-1251'', target_value = ''Support'', Data_Value = Scalar ''3.0'',
         Scale_Name = NA, Date = NA\<rparr>,
       \<lparr>SOC_Code = ''15-1251'', target_value = ''Support'', Data_Value = Scalar ''4.5'',
         Scale_Name = NA, Date = NA\<rparr>]"] l p
  show ?thesis by blast
qed

text \<open>
  C8 as stated fails in the wide shape: of two rows with the same normalised code, the
  record kept is the first, with the value 4.1, not the last, with 2.7.
\<close>

theorem loader_wide_keeps_first_counterexample:
  "load_onet_values (map_of [])
     \<lparr>columns = [''SOC Code'', ''Achievement'', ''Independence'', ''Recognition'',
                  ''Relationships'', ''Support'', ''Working Conditions''],
      rows = [row_of [(''SOC Code'', Str ''13-1081''), (''Achievement'', Scalar ''4.1'')],
              row_of [(''SOC Code'', Str ''131081''), (''Achievement'', Scalar ''2.7'')]]\<rparr>
   = Inr [(''13-1081'', [Scalar ''4.1'', NA, NA, NA, NA, NA])]"
  by code_simp

section \<open>Properties of the merge\<close>

lemma filter_key_distinct:
  "distinct (map fst r) \<Longrightarrow>
   filter (\<lambda>(k', vs). k' = k) r = (case map_of r k of None \<Rightarrow> [] | Some vs \<Rightarrow> [(k, vs)])"
proof (induction r)
  case Nil
  show ?case by simp
next
  case (Cons p r)
  obtain k' vs where p: "p = (k', vs)" by (cases p)
  from Cons.prems have d: "distinct (map fst r)" and n: "k' \<notin> fst ` set r" by (auto simp: p)
  show ?case
  proof (cases "k' = k")
    case True
    with n have "map_of r k = None" by (simp add: map_of_eq_None_iff)
    with Cons.IH [OF d] True show ?thesis by (simp add: p)
  next
    case False
    with Cons.IH [OF d] show ?thesis by (simp add: p)
  qed
qed

lemma left_join_distinct:
  assumes "distinct (map fst right)"
  shows "left_join left right =
     map (\<lambda>(k, a). (k, a, case map_of right k of
                             None \<Rightarrow> replicate (length VALUE_COLS_CANON) NA
                           | Some vs \<Rightarrow> vs)) left"
proof -
  have "(case filter (\<lambda>(k', vs). k' = k) right of
          [] \<Rightarrow> [(k, a, replicate (length VALUE_COLS_CANON) NA)]
        | m # ms \<Rightarrow> map (\<lambda>(k', vs). (k, a, vs)) (m # ms))
      = [(k, a, case map_of right k of
                  None \<Rightarrow> replicate (length VALUE_COLS_CANON) NA | Some vs \<Rightarrow> vs)]" for k and a :: 'a
    unfolding filter_key_distinct [OF assms] by (simp split: option.split)
  then show ?thesis
    unfolding left_join_def by (induction left) (auto simp: case_prod_beta)
qed

text \<open>
  C3. If the reference table handed to the merge contains two rows with the same SOC
  code, the merge fails with \<open>MergeError\<close>; no merged table is produced.
\<close>

theorem merge_duplicate_key_fails:
  "i < j \<Longrightarrow> j < length right \<Longrightarrow> fst (right ! i) = fst (right ! j) \<Longrightarrow>
   merge left right = Inl MergeError"
proof -
  assume a: "i < j" "j < length right" "fst (right ! i) = fst (right ! j)"
  then have "\<not> distinct (map fst right)"
    using nth_eq_iff_index_eq [of "map fst right" i j] by auto
  then show ?thesis by (simp add: merge_def)
qed

theorem merge_duplicate_key_fails_witness:
  "(0::nat) < 1 \<and> 1 < length [(''13-1081'', [Scalar ''1'']), (''13-1081'', [Scalar ''2''])] \<and>
   merge [(''13-1081'', ''Analyst'')] [(''13-1081'', [Scalar ''1'']), (''13-1081'', [Scalar ''2''])]
     = Inl MergeError"
  using merge_duplicate_key_fails [of 0 1 "[(''13-1081'', [Scalar ''1'']), (''13-1081'', [Scalar ''2''])]"
     "[(''13-1081'', ''Analyst'')]"]
  by simp

text \<open>
  C4. When the merge succeeds, its result is the input rows, each once and in their
  order, extended by the six values; an input row whose SOC code has no row in the
  reference table is there with all six values missing.
\<close>

theorem merge_keeps_unmatched:
  "merge left right = Inr out \<Longrightarrow>
   map (\<lambda>(k, a, vs). (k, a)) out = left \<and>
   (\<forall>i < length left. fst (left ! i) \<notin> fst ` set right \<longrightarrow>
      snd (snd (out ! i)) = [NA, NA, NA, NA, NA, NA])"
proof -
  assume m: "merge left right = Inr out"
  then have d: "distinct (map fst right)" and o: "out = left_join left right"
    by (auto simp: merge_def split: if_splits)
  note j = left_join_distinct [OF d, of left]
  have 1: "map (\<lambda>(k, a, vs). (k, a)) out = left"
    unfolding o j by (induction left) auto
  have 2: "snd (snd (out ! i)) = [NA, NA, NA, NA, NA, NA]"
    if "i < length left" "fst (left ! i) \<notin> fst ` set right" for i
  proof -
    from that(2) have "map_of right (fst (left ! i)) = None"
      by (simp add: map_of_eq_None_iff)
    with that(1) show ?thesis
      unfolding o j by (simp add: case_prod_beta VALUE_COLS_CANON_def)
  qed
  from 1 2 show ?thesis by blast
qed

theorem merge_keeps_unmatched_witness:
  "merge [(''13-1081'', ''Analyst''), (''99-9999'', ''Wizard'')] [(''13-1081'', [Scalar ''1''])]
     = Inr [(''13-1081'', ''Analyst'', [Scalar ''1'']),
            (''99-9999'', ''Wizard'', [NA, NA, NA, NA, NA, NA])] \<and>
   fst ([(''13-1081'', ''Analyst''), (''99-9999'', ''Wizard'')] ! 1)
     \<notin> fst ` set [(''13-1081'', [Scalar ''1''])] \<and>
   snd (snd ([(''13-1081'', ''Analyst'', [Scalar ''1'']),
              (''99-9999'', ''Wizard'', [NA, NA, NA, NA, NA, NA])] ! 1))
     = [NA, NA, NA, NA, NA, NA]"
proof -
  have e: "merge [(''13-1081'', ''Analyst''), (''99-9999'', ''Wizard'')] [(''13-1081'', [Scalar ''1''])]
     = Inr [(''13-1081'', ''Analyst'', [Scalar ''1'']),
            (''99-9999'', ''Wizard'', [NA, NA, NA, NA, NA, NA])]"
    by code_simp
  from merge_keeps_unmatched [OF e] have
    "\<forall>i < length [(''13-1081'', ''Analyst''), (''99-9999'', ''Wizard'')].
       fst ([(''13-1081'', ''Analyst''), (''99-9999'', ''Wizard'')] ! i)
         \<notin> fst ` set [(''13-1081'', [Scalar ''1''])] \<longrightarrow>
       snd (snd ([(''13-1081'', ''Analyst'', [Scalar ''1'']),
              (''99-9999'', ''Wizard'', [NA, NA, NA, NA, NA, NA])] ! i))
         = [NA, NA, NA, NA, NA, NA]"
    by (rule conjunct2)
  then have "fst ([(''13-1081'', ''Analyst''), (''99-9999'', ''Wizard'')] ! 1)
         \<notin> fst ` set [(''13-1081'', [Scalar ''1''])] \<longrightarrow>
       snd (snd ([(''13-1081'', ''Analyst'', [Scalar ''1'']),
              (''99-9999'', ''Wizard'', [NA, NA, NA, NA, NA, NA])] ! 1))
         = [NA, NA, NA, NA, NA, NA]"
    by simp
  with e show ?thesis by simp
qed

section \<open>Properties of the column order\<close>

lemma filter_eq_distinct:
  "distinct xs \<Longrightarrow> l \<in> set xs \<Longrightarrow> filter (\<lambda>c. c = l) xs = [l]"
proof (induction xs)
  case Nil
  then show ?case by simp
next
  case (Cons x xs)
  show ?case
  proof (cases "x = l")
    case True
    with Cons.prems have "l \<notin> set xs" by simp
    then have "filter (\<lambda>c. c = l) xs = []" by (induction xs) auto
    with True show ?thesis by simp
  next
    case False
    with Cons show ?thesis by simp
  qed
qed

lemma select_columns_distinct:
  "distinct cols \<Longrightarrow> set labels \<subseteq> set cols \<Longrightarrow> select_columns labels cols = labels"
proof (induction labels)
  case Nil
  show ?case by (simp add: select_columns_def)
next
  case (Cons l labels)
  from Cons.prems have "filter (\<lambda>c. c = l) cols = [l]"
    by (simp add: filter_eq_distinct)
  with Cons show ?case by (simp add: select_columns_def)
qed

lemma reorder_columns_distinct:
  "distinct cols \<Longrightarrow>
   reorder_columns cols =
     filter (\<lambda>c. c \<in> set cols) FRONT @ filter (\<lambda>c. c \<in> set cols) VALUE_COLS_CANON @
     filter (\<lambda>c. c \<notin> set FRONT \<and> c \<notin> set VALUE_COLS_CANON) cols"
proof -
  assume d: "distinct cols"
  let ?front = "filter (\<lambda>c. c \<in> set cols) FRONT"
  let ?vals = "filter (\<lambda>c. c \<in> set cols) VALUE_COLS_CANON"
  let ?others = "filter (\<lambda>c. c \<notin> set (?front @ ?vals)) cols"
  have o: "?others = filter (\<lambda>c. c \<notin> set FRONT \<and> c \<notin> set VALUE_COLS_CANON) cols"
    by (rule filter_cong) auto
  have "set (?front @ ?vals @ ?others) \<subseteq> set cols" by auto
  from select_columns_distinct [OF d this]
  show ?thesis unfolding reorder_columns_def Let_def o .
qed


lemma set_set_column: "set (set_column n cols) = insert n (set cols)"
  by (auto simp: set_column_def)

lemma in_rename_other: "x \<in> set cols \<Longrightarrow> x \<noteq> old \<Longrightarrow> x \<in> set (rename old new cols)"
  by (force simp: rename_def)

lemma in_rename_new: "old \<in> set cols \<Longrightarrow> new \<in> set (rename old new cols)"
  by (force simp: rename_def)

lemma rename_sub: "x \<in> set (rename old new cols) \<Longrightarrow> x \<in> set cols \<or> x = new"
  by (auto simp: rename_def split: if_splits)

lemma col_like_Some:
  "col_like cols opts = Some c \<Longrightarrow> c \<in> set cols \<and> canon c \<in> set (map canon opts)"
  by (auto simp: col_like_def find_Some_iff)

lemma col_like_None:
  "col_like cols opts = None \<Longrightarrow> c \<in> set cols \<Longrightarrow> canon c \<notin> set (map canon opts)"
  by (auto simp: col_like_def find_None_iff)

lemma canon_job: "map canon job_opts = [''jobtitle'', ''jobtitles'']"
  by code_simp

lemma canon_headcount: "map canon headcount_opts = [''headcount'', ''headcount'', ''hc'']"
  by code_simp

lemma canon_occ_title:
  "map canon occ_title_opts = [''occupationaltitle'', ''occupationtitle'', ''onettitle'', ''title'']"
  by code_simp

lemma canon_front:
  "canon ''Job Title'' = ''jobtitle''" "canon ''HeadCount'' = ''headcount''"
  "canon ''SOC Code'' = ''soccode''" "canon ''Occupational Title'' = ''occupationaltitle''"
  by code_simp+

lemma set_merged_columns:
  "set (merged_columns cols) =
     set cols \<union> (\<lambda>c. if c \<in> set cols then c @ ''_ONET'' else c) ` set VALUE_COLS_CANON"
  by (simp add: merged_columns_def)

lemma job_title_not_value:
  "''Job Title'' \<notin> (\<lambda>c. if c \<in> set cols then c @ ''_ONET'' else c) ` set VALUE_COLS_CANON"
  by (auto simp: VALUE_COLS_CANON_def)

lemma input_columns_front:
  assumes "input_columns headers = Inr cols"
  shows "''HeadCount'' \<in> set cols \<and> ''SOC Code'' \<in> set cols \<and>
         ''Occupational Title'' \<in> set cols \<and>
         ((''Job Title'' \<in> set cols) = (col_like (map strip headers) job_opts \<noteq> None))"
proof -
  define cols0 where "cols0 = map strip headers"
  define cols1 where "cols1 = set_column ''SOC Code'' cols0"
  define cols2 where "cols2 =
    (case col_like cols0 headcount_opts of
       None \<Rightarrow> set_column ''HeadCount'' cols1
     | Some c \<Rightarrow> rename c ''HeadCount'' cols1)"
  define cols3 where "cols3 =
    (case col_like cols0 occ_title_opts of
       Some c \<Rightarrow> rename c ''Occupational Title'' cols2
     | None \<Rightarrow> set_column ''Occupational Title'' cols2)"
  define cols4 where "cols4 =
    (case col_like cols0 job_opts of
       Some c \<Rightarrow> if c \<noteq> ''Job Title'' then rename c ''Job Title'' cols3 else cols3
     | None \<Rightarrow> cols3)"
  from assms have c4: "cols = cols4"
    by (auto simp: input_columns_def Let_def cols0_def cols1_def cols2_def cols3_def cols4_def
        split: sum.splits option.splits if_splits)
  have s01: "set cols0 \<subseteq> set cols1" by (auto simp: cols1_def set_set_column)
  \<comment> \<open>the three resolved columns are pairwise different and none of the fixed names,
      unless it is the name it resolves to\<close>
  have h: "c \<in> set cols0 \<and> canon c \<in> {''headcount'', ''hc''}"
    if "col_like cols0 headcount_opts = Some c" for c
    using col_like_Some [OF that] by (simp add: canon_headcount)
  have o: "c \<in> set cols0 \<and> canon c \<in> {''occupationaltitle'', ''occupationtitle'', ''onettitle'', ''title''}"
    if "col_like cols0 occ_title_opts = Some c" for c
    using col_like_Some [OF that] by (simp add: canon_occ_title)
  have j: "c \<in> set cols0 \<and> canon c \<in> {''jobtitle'', ''jobtitles''}"
    if "col_like cols0 job_opts = Some c" for c
    using col_like_Some [OF that] by (simp add: canon_job)
  \<comment> \<open>SOC Code\<close>
  have soc1: "''SOC Code'' \<in> set cols1" by (simp add: cols1_def set_set_column)
  have soc2: "''SOC Code'' \<in> set cols2"
  proof (cases "col_like cols0 headcount_opts")
    case None
    with soc1 show ?thesis by (simp add: cols2_def set_set_column)
  next
    case (Some c)
    from h [OF Some] have "''SOC Code'' \<noteq> c" using canon_front(3) by auto
    with soc1 Some show ?thesis by (simp add: cols2_def in_rename_other)
  qed
  have soc3: "''SOC Code'' \<in> set cols3"
  proof (cases "col_like cols0 occ_title_opts")
    case None
    with soc2 show ?thesis by (simp add: cols3_def set_set_column)
  next
    case (Some c)
    from o [OF Some] have "''SOC Code'' \<noteq> c" using canon_front(3) by auto
    with soc2 Some show ?thesis by (simp add: cols3_def in_rename_other)
  qed
  have soc4: "''SOC Code'' \<in> set cols4"
  proof (cases "col_like cols0 job_opts")
    case None
    with soc3 show ?thesis by (simp add: cols4_def)
  next
    case (Some c)
    from j [OF Some] have "''SOC Code'' \<noteq> c" using canon_front(3) by auto
    with soc3 Some show ?thesis by (simp add: cols4_def in_rename_other)
  qed
  \<comment> \<open>HeadCount\<close>
  have hc2: "''HeadCount'' \<in> set cols2"
  proof (cases "col_like cols0 headcount_opts")
    case None
    then show ?thesis by (simp add: cols2_def set_set_column)
  next
    case (Some c)
    from h [OF Some] s01 have "c \<in> set cols1" by auto
    with Some show ?thesis by (simp add: cols2_def in_rename_new)
  qed
  have hc3: "''HeadCount'' \<in> set cols3"
  proof (cases "col_like cols0 occ_title_opts")
    case None
    with hc2 show ?thesis by (simp add: cols3_def set_set_column)
  next
    case (Some c)
    from o [OF Some] have "''HeadCount'' \<noteq> c" using canon_front(2) by auto
    with hc2 Some show ?thesis by (simp add: cols3_def in_rename_other)
  qed
  have hc4: "''HeadCount'' \<in> set cols4"
  proof (cases "col_like cols0 job_opts")
    case None
    with hc3 show ?thesis by (simp add: cols4_def)
  next
    case (Some c)
    from j [OF Some] have "''HeadCount'' \<noteq> c" using canon_front(2) by auto
    with hc3 Some show ?thesis by (simp add: cols4_def in_rename_other)
  qed
  \<comment> \<open>a column of the input is still there after the headcount step, unless renamed\<close>
  have keep2: "c \<in> set cols2"
    if "c \<in> set cols0" "canon c \<notin> {''headcount'', ''hc''}" for c
  proof (cases "col_like cols0 headcount_opts")
    case None
    with that s01 show ?thesis by (auto simp: cols2_def set_set_column)
  next
    case (Some c')
    from h [OF Some] that have "c \<noteq> c'" by auto
    with that s01 Some show ?thesis by (auto simp: cols2_def in_rename_other)
  qed
  have keep3: "c \<in> set cols3"
    if "c \<in> set cols2" "canon c \<notin> {''occupationaltitle'', ''occupationtitle'', ''onettitle'', ''title''}" for c
  proof (cases "col_like cols0 occ_title_opts")
    case None
    with that show ?thesis by (auto simp: cols3_def set_set_column)
  next
    case (Some c')
    from o [OF Some] that have "c \<noteq> c'" by auto
    with that Some show ?thesis by (auto simp: cols3_def in_rename_other)
  qed
  \<comment> \<open>Occupational Title\<close>
  have ot3: "''Occupational Title'' \<in> set cols3"
  proof (cases "col_like cols0 occ_title_opts")
    case None
    then show ?thesis by (simp add: cols3_def set_set_column)
  next
    case (Some c)
    from o [OF Some] have "c \<in> set cols2" by (intro keep2) auto
    with Some show ?thesis by (simp add: cols3_def in_rename_new)
  qed
  have ot4: "''Occupational Title'' \<in> set cols4"
  proof (cases "col_like cols0 job_opts")
    case None
    with ot3 show ?thesis by (simp add: cols4_def)
  next
    case (Some c)
    from j [OF Some] have "''Occupational Title'' \<noteq> c" using canon_front(4) by auto
    with ot3 Some show ?thesis by (simp add: cols4_def in_rename_other)
  qed
  \<comment> \<open>Job Title\<close>
  have jt: "(''Job Title'' \<in> set cols4) = (col_like cols0 job_opts \<noteq> None)"
  proof (cases "col_like cols0 job_opts")
    case None
    have n0: "''Job Title'' \<notin> set cols0"
      using col_like_None [OF None, of "''Job Title''"] by (auto simp: canon_job canon_front)
    then have n1: "''Job Title'' \<notin> set cols1" by (simp add: cols1_def set_set_column)
    have n2: "''Job Title'' \<notin> set cols2"
      using n1 by (auto simp: cols2_def set_set_column split: option.splits dest: rename_sub)
    have n3: "''Job Title'' \<notin> set cols3"
      using n2 by (auto simp: cols3_def set_set_column split: option.splits dest: rename_sub)
    with None show ?thesis by (simp add: cols4_def)
  next
    case (Some c)
    from j [OF Some] have "c \<in> set cols2" by (intro keep2) auto
    with j [OF Some] have "c \<in> set cols3" by (intro keep3) auto
    with Some show ?thesis by (auto simp: cols4_def in_rename_new)
  qed
  from soc4 hc4 ot4 jt show ?thesis by (simp add: c4 cols0_def)
qed

text \<open>
  C9 (as amended). When the column names of the merged table are pairwise distinct, the
  output columns are: those of Job Title, HeadCount, SOC Code, Occupational Title that
  the merged table has, in this order; then those of the six canonical Work-Values
  columns that it has, in canonical order; then all remaining columns in their original
  relative order. HeadCount, SOC Code and Occupational Title are always columns of the
  merged table; Job Title is one exactly when the input has a job-title column.
\<close>

theorem output_column_order:
  "(distinct cols \<longrightarrow>
      reorder_columns cols =
        filter (\<lambda>c. c \<in> set cols) FRONT @ filter (\<lambda>c. c \<in> set cols) VALUE_COLS_CANON @
        filter (\<lambda>c. c \<notin> set FRONT \<and> c \<notin> set VALUE_COLS_CANON) cols) \<and>
   (input_columns headers = Inr in_cols \<longrightarrow>
      ''HeadCount'' \<in> set (merged_columns in_cols) \<and>
      ''SOC Code'' \<in> set (merged_columns in_cols) \<and>
      ''Occupational Title'' \<in> set (merged_columns in_cols) \<and>
      ((''Job Title'' \<in> set (merged_columns in_cols)) =
         (col_like (map strip headers) job_opts \<noteq> None)))"
proof -
  have "''HeadCount'' \<in> set (merged_columns in_cols) \<and>
      ''SOC Code'' \<in> set (merged_columns in_cols) \<and>
      ''Occupational Title'' \<in> set (merged_columns in_cols) \<and>
      ((''Job Title'' \<in> set (merged_columns in_cols)) =
         (col_like (map strip headers) job_opts \<noteq> None))"
    if "input_columns headers = Inr in_cols"
    using input_columns_front [OF that] job_title_not_value [of in_cols]
    unfolding set_merged_columns by blast
  with reorder_columns_distinct [of cols] show ?thesis by blast
qed

theorem output_column_order_witness:
  "distinct (merged_columns [''Dept'', ''Job Title'', ''soc'', ''HeadCount'', ''SOC Code'',
      ''Occupational Title'']) \<and>
   input_columns [''Dept'', ''job titles '', '' soc'', ''HC''] =
     Inr [''Dept'', ''Job Title'', ''soc'', ''HeadCount'', ''SOC Code'', ''Occupational Title''] \<and>
   reorder_columns (merged_columns [''Dept'', ''Job Title'', ''soc'', ''HeadCount'', ''SOC Code'',
      ''Occupational Title'']) =
     [''Job Title'', ''HeadCount'', ''SOC Code'', ''Occupational Title'', ''Achievement'',
      ''Independence'', ''Recognition'', ''Relationships'', ''Support'', ''Working Conditions'',
      ''Dept'', ''soc''] \<and>
   ''Job Title'' \<in> set (merged_columns [''Dept'', ''Job Title'', ''soc'', ''HeadCount'',
      ''SOC Code'', ''Occupational Title''])"
proof -
  have d: "distinct (merged_columns [''Dept'', ''Job Title'', ''soc'', ''HeadCount'', ''SOC Code'',
      ''Occupational Title''])"
    by code_simp
  have i: "input_columns [''Dept'', ''job titles '', '' soc'', ''HC''] =
     Inr [''Dept'', ''Job Title'', ''soc'', ''HeadCount'', ''SOC Code'', ''Occupational Title'']"
    by code_simp
  have r: "filter (\<lambda>c. c \<in> set (merged_columns [''Dept'', ''Job Title'', ''soc'', ''HeadCount'',
        ''SOC Code'', ''Occupational Title''])) FRONT @
      filter (\<lambda>c. c \<in> set (merged_columns [''Dept'', ''Job Title'', ''soc'', ''HeadCount'',
        ''SOC Code'', ''Occupational Title''])) VALUE_COLS_CANON @
      filter (\<lambda>c. c \<notin> set FRONT \<and> c \<notin> set VALUE_COLS_CANON)
        (merged_columns [''Dept'', ''Job Title'', ''soc'', ''HeadCount'', ''SOC Code'',
        ''Occupational Title'']) =
     [''Job Title'', ''HeadCount'', ''SOC Code'', ''Occupational Title'', ''Achievement'',
      ''Independence'', ''Recognition'', ''Relationships'', ''Support'', ''Working Conditions'',
      ''Dept'', ''soc'']"
    by code_simp
  have j: "col_like (map strip [''Dept'', ''job titles '', '' soc'', ''HC'']) job_opts \<noteq> None"
    by code_simp
  from output_column_order [of "merged_columns [''Dept'', ''Job Title'', ''soc'', ''HeadCount'',
      ''SOC Code'', ''Occupational Title'']" "[''Dept'', ''job titles '', '' soc'', ''HC'']"
      "[''Dept'', ''Job Title'', ''soc'', ''HeadCount'', ''SOC Code'', ''Occupational Title'']"]
    d i r j
  show ?thesis by simp
qed

text \<open>
  C9 as stated fails for an input without a job-title column: the output begins with
  HeadCount.
\<close>

theorem output_columns_without_job_title_counterexample:
  "output_columns [''SOC Code''] =
     Inr [''HeadCount'', ''SOC Code'', ''Occupational Title'', ''Achievement'', ''Independence'',
          ''Recognition'', ''Relationships'', ''Support'', ''Working Conditions'']"
  by code_simp

end
